theory Spec2Isabelle
  imports Complex_Main
begin

section \<open>SubFlix subtitle engine: data model\<close>

text \<open>
  The class \<open>SubtitleEngine\<close> keeps a list of subtitle objects \<open>{start, end, text}\<close>, the
  index of the last matched subtitle, a timing offset and an enable flag.  JavaScript
  numbers that hold times are modelled as exact rationals (rounding of IEEE doubles is
  outside the model); indices are integers; strings are lists of 8-bit code units.
  The fields \<open>start\<close>, \<open>end\<close>, \<open>text\<close> of a subtitle object are called \<open>s_start\<close>,
  \<open>s_end\<close>, \<open>s_text\<close>, since \<open>end\<close> and \<open>text\<close> are reserved words here.
\<close>

record subtitle =
  s_start :: rat
  s_end :: rat
  s_text :: string

record engine =
  subtitles :: "subtitle list"
  currentIndex :: int
  offset :: rat
  enabled :: bool
  lastUpdateTime :: rat

text \<open>The exceptions the engine can raise: \<open>throw new Error(msg)\<close>, and the \<open>TypeError\<close>
  of reading a property of \<open>undefined\<close>.\<close>

datatype error = Error string | TypeError

text \<open>The values a caller can pass to \<open>loadSubtitles\<close>; \<open>Array.isArray\<close> holds of the
  first constructor only.\<close>

datatype js_value =
    JsArray "subtitle list"
  | JsUndefined
  | JsNull
  | JsBoolean bool
  | JsNumber rat
  | JsString string
  | JsObject

fun isArray :: "js_value \<Rightarrow> bool" where
  "isArray (JsArray xs) = True"
| "isArray v = False"

text \<open>\<open>new SubtitleEngine()\<close>.\<close>

definition constructor :: engine where
  "constructor =
     \<lparr>subtitles = [], currentIndex = - 1, offset = 0, enabled = True, lastUpdateTime = 0\<rparr>"

text \<open>\<open>arr[i]\<close>: \<open>None\<close> is JavaScript's \<open>undefined\<close>, the result of an index outside the
  array.\<close>

definition js_index :: "'a list \<Rightarrow> int \<Rightarrow> 'a option" where
  "js_index xs i = (if 0 \<le> i \<and> i < int (length xs) then Some (xs ! nat i) else None)"

section \<open>Engine operations\<close>

text \<open>Every operation that can change the engine or throw returns its result together
  with the engine after the call, \<open>Inl\<close> being the exception thrown.  The calls of
  \<open>Utils.log\<close> write to the console and are left out.\<close>

definition loadSubtitles :: "js_value \<Rightarrow> engine \<Rightarrow> (error + unit) \<times> engine" where
  "loadSubtitles x this =
     (case x of
        JsArray subs \<Rightarrow> (Inr (), this\<lparr>subtitles := subs, currentIndex := - 1\<rparr>)
      | _ \<Rightarrow> (Inl (Error ''Subtitles must be an array''), this))"

definition clearSubtitles :: "engine \<Rightarrow> engine" where
  "clearSubtitles this = this\<lparr>subtitles := [], currentIndex := - 1\<rparr>"

definition setOffset :: "rat \<Rightarrow> engine \<Rightarrow> engine" where
  "setOffset off this = this\<lparr>offset := off, currentIndex := - 1\<rparr>"

definition getOffset :: "engine \<Rightarrow> rat" where
  "getOffset this = offset this"

definition setEnabled :: "bool \<Rightarrow> engine \<Rightarrow> engine" where
  "setEnabled flag this = this\<lparr>enabled := flag\<rparr>"

definition isEnabled :: "engine \<Rightarrow> bool" where
  "isEnabled this = enabled this"

definition reset :: "engine \<Rightarrow> engine" where
  "reset this =
     this\<lparr>subtitles := [], currentIndex := - 1, offset := 0, enabled := True,
          lastUpdateTime := 0\<rparr>"

text \<open>The test \<open>time >= subtitle.start && time <= subtitle.end\<close>.\<close>

definition containsTime :: "rat \<Rightarrow> subtitle \<Rightarrow> bool" where
  "containsTime time sub \<longleftrightarrow> time \<ge> s_start sub \<and> time \<le> s_end sub"

text \<open>\<open>_binarySearchSubtitle\<close>: the \<open>while (left <= right)\<close> loop, with \<open>left\<close> and
  \<open>right\<close> as arguments.  Reading \<open>subtitle.start\<close> of an \<open>undefined\<close> element throws.\<close>

function binarySearchLoop ::
  "subtitle list \<Rightarrow> rat \<Rightarrow> int \<Rightarrow> int \<Rightarrow> error + (subtitle \<times> int) option" where
  "binarySearchLoop subs time left right =
     (if left \<le> right then
        let mid = (left + right) div 2 in
        case js_index subs mid of
          None \<Rightarrow> Inl TypeError
        | Some sub \<Rightarrow>
            if containsTime time sub then Inr (Some (sub, mid))
            else if time < s_start sub then binarySearchLoop subs time left (mid - 1)
            else binarySearchLoop subs time (mid + 1) right
      else Inr None)"
  by pat_completeness auto
termination
  by (relation "measure (\<lambda>(subs, time, left, right). nat (right - left + 1))") auto

declare binarySearchLoop.simps [simp del]

definition binarySearchSubtitle :: "engine \<Rightarrow> rat \<Rightarrow> error + (subtitle \<times> int) option" where
  "binarySearchSubtitle this time =
     binarySearchLoop (subtitles this) time 0 (int (length (subtitles this)) - 1)"

text \<open>\<open>getSubtitleAtTime\<close>, one definition for each stage of the method body; a stage
  that does not return falls through to the next one.  The test \<open>!this.subtitles\<close> of
  the first line is false of every array and has no branch here.\<close>

definition lookupBinary :: "rat \<Rightarrow> engine \<Rightarrow> (error + subtitle option) \<times> engine" where
  "lookupBinary adjustedTime this =
     (case binarySearchSubtitle this adjustedTime of
        Inl e \<Rightarrow> (Inl e, this)
      | Inr (Some (sub, index)) \<Rightarrow> (Inr (Some sub), this\<lparr>currentIndex := index\<rparr>)
      | Inr None \<Rightarrow> (Inr None, this))"

definition lookupPrev :: "rat \<Rightarrow> engine \<Rightarrow> (error + subtitle option) \<times> engine" where
  "lookupPrev adjustedTime this =
     (if currentIndex this - 1 \<ge> 0 then
        case js_index (subtitles this) (currentIndex this - 1) of
          None \<Rightarrow> (Inl TypeError, this)
        | Some prev \<Rightarrow>
            if containsTime adjustedTime prev
            then (Inr (Some prev), this\<lparr>currentIndex := currentIndex this - 1\<rparr>)
            else lookupBinary adjustedTime this
      else lookupBinary adjustedTime this)"

definition lookupNext :: "rat \<Rightarrow> engine \<Rightarrow> (error + subtitle option) \<times> engine" where
  "lookupNext adjustedTime this =
     (if currentIndex this + 1 < int (length (subtitles this)) then
        case js_index (subtitles this) (currentIndex this + 1) of
          None \<Rightarrow> (Inl TypeError, this)
        | Some next \<Rightarrow>
            if containsTime adjustedTime next
            then (Inr (Some next), this\<lparr>currentIndex := currentIndex this + 1\<rparr>)
            else lookupPrev adjustedTime this
      else lookupPrev adjustedTime this)"

definition lookupCurrent :: "rat \<Rightarrow> engine \<Rightarrow> (error + subtitle option) \<times> engine" where
  "lookupCurrent adjustedTime this =
     (if currentIndex this \<ge> 0 \<and> currentIndex this < int (length (subtitles this)) then
        case js_index (subtitles this) (currentIndex this) of
          None \<Rightarrow> (Inl TypeError, this)
        | Some current \<Rightarrow>
            if containsTime adjustedTime current then (Inr (Some current), this)
            else lookupNext adjustedTime this
      else lookupNext adjustedTime this)"

definition getSubtitleAtTime :: "rat \<Rightarrow> engine \<Rightarrow> (error + subtitle option) \<times> engine" where
  "getSubtitleAtTime currentTime this =
     (if \<not> enabled this \<or> length (subtitles this) = 0 then (Inr None, this)
      else lookupCurrent (currentTime + offset this) this)"

definition getSubtitlesInRange :: "rat \<Rightarrow> rat \<Rightarrow> engine \<Rightarrow> subtitle list \<times> engine" where
  "getSubtitlesInRange startTime endTime this =
     (let adjustedStart = startTime + offset this;
          adjustedEnd = endTime + offset this
      in (filter (\<lambda>sub. s_start sub \<le> adjustedEnd \<and> s_end sub \<ge> adjustedStart)
            (subtitles this), this))"

definition getSubtitleCount :: "engine \<Rightarrow> nat" where
  "getSubtitleCount this = length (subtitles this)"

definition getTotalDuration :: "engine \<Rightarrow> rat" where
  "getTotalDuration this =
     (if length (subtitles this) = 0 then 0 else s_end (last (subtitles this)))"

text \<open>The object \<open>getStats\<close> returns; \<open>st_enabled\<close> is \<open>None\<close> where the source leaves
  the property out (the empty engine).  \<open>Math.round\<close> rounds halves upwards.\<close>

record stats =
  st_count :: nat
  st_duration :: rat
  st_averageLength :: int
  st_longestText :: string
  st_offset :: rat
  st_enabled :: "bool option"

definition getStats :: "engine \<Rightarrow> stats \<times> engine" where
  "getStats this =
     (if length (subtitles this) = 0 then
        (\<lparr>st_count = 0, st_duration = 0, st_averageLength = 0, st_longestText = [],
          st_offset = offset this, st_enabled = None\<rparr>, this)
      else
        let totalLength = foldl (\<lambda>sum sub. sum + length (s_text sub)) 0 (subtitles this);
            longest = foldl (\<lambda>mx sub. if length (s_text sub) > length (s_text mx)
                                        then sub else mx)
                        (hd (subtitles this)) (subtitles this)
        in (\<lparr>st_count = length (subtitles this),
             st_duration = getTotalDuration this,
             st_averageLength =
               \<lfloor>rat_of_nat totalLength / rat_of_nat (length (subtitles this)) + 1 / 2\<rfloor>,
             st_longestText = take 50 (s_text longest) @ ''...'',
             st_offset = offset this,
             st_enabled = Some (enabled this)\<rparr>, this))"


section \<open>The SRT codec\<close>

subsection \<open>Strings and regular expressions\<close>

text \<open>A string is a list of code units below 256.  \<open>isWhiteSpace\<close> is the class that
  \<open>String.prototype.trim\<close> strips and that \<open>\s\<close> matches: tab, line feed, vertical tab,
  form feed, carriage return, space and no-break space (the members above 255 are not
  representable here).  \<open>isDigit\<close> is \<open>\d\<close>.\<close>

definition isWhiteSpace :: "char \<Rightarrow> bool" where
  "isWhiteSpace c \<longleftrightarrow>
     c \<in> {CHR 0x09, CHR 0x0A, CHR 0x0B, CHR 0x0C, CHR 0x0D, CHR 0x20, CHR 0xA0}"

definition isDigit :: "char \<Rightarrow> bool" where
  "isDigit c \<longleftrightarrow> 48 \<le> (of_char c :: nat) \<and> (of_char c :: nat) \<le> 57"

definition trimStart :: "string \<Rightarrow> string" where
  "trimStart s = dropWhile isWhiteSpace s"

definition trimEnd :: "string \<Rightarrow> string" where
  "trimEnd s = rev (dropWhile isWhiteSpace (rev s))"

definition trim :: "string \<Rightarrow> string" where
  "trim s = trimEnd (trimStart s)"

text \<open>\<open>s.split('\n')\<close> and \<open>lines.join('\n')\<close>.\<close>

fun splitLines :: "string \<Rightarrow> string list" where
  "splitLines [] = [[]]"
| "splitLines (c # cs) =
     (if c = CHR 0x0A then [] # splitLines cs
      else case splitLines cs of [] \<Rightarrow> [[c]] | l # ls \<Rightarrow> (c # l) # ls)"

fun joinLines :: "string list \<Rightarrow> string" where
  "joinLines [] = []"
| "joinLines [l] = l"
| "joinLines (l # ls) = l @ CHR 0x0A # joinLines ls"

text \<open>The regular expression \<open>/\n\s*\n/\<close> at the start of a string, as the backtracking
  matcher runs it: \<open>\s*\<close> first takes as many characters as it can and gives them back
  one at a time until a line feed follows.  The result is the text after the match.\<close>

fun matchSpacesNewline :: "string \<Rightarrow> string option" where
  "matchSpacesNewline [] = None"
| "matchSpacesNewline (c # cs) =
     (case (if isWhiteSpace c then matchSpacesNewline cs else None) of
        Some rest \<Rightarrow> Some rest
      | None \<Rightarrow> if c = CHR 0x0A then Some cs else None)"

fun matchBlankLine :: "string \<Rightarrow> string option" where
  "matchBlankLine [] = None"
| "matchBlankLine (c # cs) = (if c = CHR 0x0A then matchSpacesNewline cs else None)"

lemma matchSpacesNewline_length:
  "matchSpacesNewline cs = Some rest \<Longrightarrow> length rest < length cs"
  by (induction cs) (auto split: option.splits if_splits)

text \<open>\<open>content.split(/\n\s*\n/)\<close>: the string up to the leftmost match is a block, and
  the split goes on after the match.\<close>

function splitBlocks :: "string \<Rightarrow> string list" where
  "splitBlocks [] = [[]]"
| "splitBlocks (c # cs) =
     (case matchBlankLine (c # cs) of
        Some rest \<Rightarrow> [] # splitBlocks rest
      | None \<Rightarrow> (case splitBlocks cs of [] \<Rightarrow> [[c]] | b # bs \<Rightarrow> (c # b) # bs))"
  by pat_completeness auto
termination
  by (relation "measure length") (auto split: if_splits dest!: matchSpacesNewline_length)

declare splitBlocks.simps [simp del]

text \<open>The timestamp expression
  \<open>/(\d{2}):(\d{2}):(\d{2}),(\d{3})\s*-->\s*(\d{2}):(\d{2}):(\d{2}),(\d{3})/\<close>.
  \<open>matchTime\<close> is one side of it, with its four groups and the text that follows;
  \<open>matchArrow\<close> is \<open>\s*-->\s*\<close> (no whitespace can stand where \<open>-\<close> or a digit is
  required, so \<open>\s*\<close> takes every whitespace character); \<open>matchTimestampAt\<close> is the
  expression at the start of a string and \<open>matchTimestamp\<close> is \<open>line.match(...)\<close>, the
  leftmost position where it matches.\<close>

definition matchDigits :: "nat \<Rightarrow> string \<Rightarrow> (string \<times> string) option" where
  "matchDigits n s =
     (if n \<le> length s \<and> list_all isDigit (take n s) then Some (take n s, drop n s) else None)"

definition matchChar :: "char \<Rightarrow> string \<Rightarrow> string option" where
  "matchChar c s = (case s of [] \<Rightarrow> None | x # rest \<Rightarrow> if x = c then Some rest else None)"

definition matchTime :: "string \<Rightarrow> ((string \<times> string \<times> string \<times> string) \<times> string) option" where
  "matchTime s =
     (case matchDigits 2 s of None \<Rightarrow> None | Some (h, s1) \<Rightarrow>
     (case matchChar CHR '':'' s1 of None \<Rightarrow> None | Some s2 \<Rightarrow>
     (case matchDigits 2 s2 of None \<Rightarrow> None | Some (m, s3) \<Rightarrow>
     (case matchChar CHR '':'' s3 of None \<Rightarrow> None | Some s4 \<Rightarrow>
     (case matchDigits 2 s4 of None \<Rightarrow> None | Some (sec, s5) \<Rightarrow>
     (case matchChar CHR '','' s5 of None \<Rightarrow> None | Some s6 \<Rightarrow>
     (case matchDigits 3 s6 of None \<Rightarrow> None | Some (ms, rest) \<Rightarrow>
        Some ((h, m, sec, ms), rest))))))))"

definition matchArrow :: "string \<Rightarrow> string option" where
  "matchArrow s =
     (let s1 = dropWhile isWhiteSpace s
      in if take 3 s1 = ''-->'' then Some (dropWhile isWhiteSpace (drop 3 s1)) else None)"

type_synonym timeMatch = "(string \<times> string \<times> string \<times> string) \<times> (string \<times> string \<times> string \<times> string)"

definition matchTimestampAt :: "string \<Rightarrow> timeMatch option" where
  "matchTimestampAt s =
     (case matchTime s of None \<Rightarrow> None | Some (g1, s1) \<Rightarrow>
     (case matchArrow s1 of None \<Rightarrow> None | Some s2 \<Rightarrow>
     (case matchTime s2 of None \<Rightarrow> None | Some (g2, rest) \<Rightarrow> Some (g1, g2))))"

fun matchTimestamp :: "string \<Rightarrow> timeMatch option" where
  "matchTimestamp [] = matchTimestampAt []"
| "matchTimestamp (c # cs) =
     (case matchTimestampAt (c # cs) of
        Some m \<Rightarrow> Some m
      | None \<Rightarrow> matchTimestamp cs)"

text \<open>\<open>parseInt\<close> on a string of decimal digits, which is all the groups of the
  expression can hold; and \<open>_parseTimestamp\<close>.\<close>

definition parseInt :: "string \<Rightarrow> nat" where
  "parseInt s = foldl (\<lambda>n c. 10 * n + (of_char c - 48)) 0 s"

definition parseTimestamp :: "string \<Rightarrow> string \<Rightarrow> string \<Rightarrow> string \<Rightarrow> rat" where
  "parseTimestamp hours minutes seconds milliseconds =
     rat_of_nat (parseInt hours) * 3600 + rat_of_nat (parseInt minutes) * 60
       + rat_of_nat (parseInt seconds) + rat_of_nat (parseInt milliseconds) / 1000"

subsection \<open>parseSRT\<close>

text \<open>\<open>tryBlock\<close> is the body of the \<open>try\<close>; \<open>lines[1].match\<close> throws when
  \<open>lines[1]\<close> is \<open>undefined\<close>.  \<open>parseBlock\<close> is one turn of the \<open>for\<close> loop, with
  the guard on \<open>lines.length\<close> and the \<open>catch\<close>, which logs and goes on: \<open>None\<close> means
  that the block pushes nothing.  \<open>parseLoop\<close> is the loop with the array \<open>subtitles\<close>
  it builds.\<close>

definition tryBlock :: "string list \<Rightarrow> error + subtitle option" where
  "tryBlock lines =
     (case js_index lines 1 of
        None \<Rightarrow> Inl TypeError
      | Some line1 \<Rightarrow>
          (case matchTimestamp line1 of
             None \<Rightarrow> Inr None
           | Some ((h1, m1, s1, ms1), (h2, m2, s2, ms2)) \<Rightarrow>
               let startTime = parseTimestamp h1 m1 s1 ms1;
                   endTime = parseTimestamp h2 m2 s2 ms2;
                   text = trim (joinLines (drop 2 lines))
               in if text \<noteq> []
                  then Inr (Some \<lparr>s_start = startTime, s_end = endTime, s_text = text\<rparr>)
                  else Inr None))"

definition parseBlock :: "string \<Rightarrow> subtitle option" where
  "parseBlock block =
     (let lines = splitLines (trim block)
      in if length lines < 3 then None
         else case tryBlock lines of Inl e \<Rightarrow> None | Inr r \<Rightarrow> r)"

fun parseLoop :: "string list \<Rightarrow> subtitle list \<Rightarrow> subtitle list" where
  "parseLoop [] subs = subs"
| "parseLoop (block # blocks) subs =
     parseLoop blocks (case parseBlock block of None \<Rightarrow> subs | Some sub \<Rightarrow> subs @ [sub])"

definition parseSRT :: "string \<Rightarrow> subtitle list" where
  "parseSRT content = parseLoop (splitBlocks (trim content)) []"

subsection \<open>exportToSRT\<close>

text \<open>\<open>String(n)\<close> of an integer (below \<open>10^21\<close> in size, where JavaScript switches
  to exponent notation), \<open>padStart\<close>, and the remainder operator \<open>%\<close>, which truncates
  the quotient towards zero.\<close>

definition digitChar :: "nat \<Rightarrow> char" where
  "digitChar d = char_of (48 + d)"











section \<open>The invariant of the entry sequence and of the cursor\<close>

text \<open>Two subtitles overlap when some time lies in both closed intervals
  (lemma \<open>overlaps_iff\<close> below).  A well-formed sequence has non-empty intervals, is sorted
  ascending by start and has no two overlapping entries.\<close>

definition overlaps :: "subtitle \<Rightarrow> subtitle \<Rightarrow> bool" where
  "overlaps a b \<longleftrightarrow> max (s_start a) (s_start b) \<le> min (s_end a) (s_end b)"

definition validIntervals :: "subtitle list \<Rightarrow> bool" where
  "validIntervals subs \<longleftrightarrow> list_all (\<lambda>sub. s_start sub \<le> s_end sub) subs"

definition sortedByStart :: "subtitle list \<Rightarrow> bool" where
  "sortedByStart subs \<longleftrightarrow> sorted_wrt (\<lambda>a b. s_start a \<le> s_start b) subs"

definition nonOverlapping :: "subtitle list \<Rightarrow> bool" where
  "nonOverlapping subs \<longleftrightarrow> sorted_wrt (\<lambda>a b. \<not> overlaps a b) subs"

definition wellFormed :: "subtitle list \<Rightarrow> bool" where
  "wellFormed subs \<longleftrightarrow> validIntervals subs \<and> sortedByStart subs \<and> nonOverlapping subs"

definition cursorOk :: "engine \<Rightarrow> bool" where
  "cursorOk this \<longleftrightarrow>
     - 1 \<le> currentIndex this \<and> currentIndex this \<le> int (length (subtitles this)) - 1"


text \<open>What a lookup at adjusted time \<open>adjustedTime\<close> can do: find nothing and leave the
  engine as it is, or return an entry that contains the time and move the cursor to it.\<close>

definition lookupOutcome ::
  "rat \<Rightarrow> engine \<Rightarrow> (error + subtitle option) \<times> engine \<Rightarrow> bool" where
  "lookupOutcome adjustedTime this res \<longleftrightarrow>
     res = (Inr None, this) \<or>
     (\<exists>k. 0 \<le> k \<and> k < int (length (subtitles this)) \<and>
          containsTime adjustedTime (subtitles this ! nat k) \<and>
          res = (Inr (Some (subtitles this ! nat k)), this\<lparr>currentIndex := k\<rparr>))"


text \<open>A small engine used to run the operations on concrete data: three cues with gaps
  between them and the cursor on the last one; and an array that is neither sorted nor
  free of overlaps.\<close>

definition demoSubs :: "subtitle list" where
  "demoSubs = [\<lparr>s_start = 0, s_end = 2, s_text = ''a''\<rparr>,
               \<lparr>s_start = 3, s_end = 5, s_text = ''b''\<rparr>,
               \<lparr>s_start = 6, s_end = 8, s_text = ''c''\<rparr>]"

definition demoEngine :: engine where
  "demoEngine = \<lparr>subtitles = demoSubs, currentIndex = 2, offset = 0, enabled = True,
                  lastUpdateTime = 0\<rparr>"

definition unsortedSubs :: "subtitle list" where
  "unsortedSubs = [\<lparr>s_start = 6, s_end = 8, s_text = ''c''\<rparr>,
                   \<lparr>s_start = 0, s_end = 7, s_text = ''a''\<rparr>]"

section \<open>Notions used to state and prove the codec properties\<close>


definition endsSolid :: "string \<Rightarrow> bool" where
  "endsSolid s \<longleftrightarrow> s \<noteq> [] \<and> \<not> isWhiteSpace (last s)"















section \<open>Properties of the timing engine\<close>

lemma overlaps_iff: "overlaps a b \<longleftrightarrow> (\<exists>t. containsTime t a \<and> containsTime t b)"
proof
  assume "overlaps a b"
  then have "containsTime (max (s_start a) (s_start b)) a \<and>
             containsTime (max (s_start a) (s_start b)) b"
    by (auto simp: overlaps_def containsTime_def)
  then show "\<exists>t. containsTime t a \<and> containsTime t b" by blast
next
  assume "\<exists>t. containsTime t a \<and> containsTime t b"
  then show "overlaps a b"
    by (auto simp: overlaps_def containsTime_def)
qed

lemma wellFormed_valid:
  "wellFormed subs \<Longrightarrow> i < length subs \<Longrightarrow> s_start (subs ! i) \<le> s_end (subs ! i)"
  by (simp add: wellFormed_def validIntervals_def list_all_length)

lemma wellFormed_ordered:
  assumes "wellFormed subs" "i < j" "j < length subs"
  shows "s_end (subs ! i) < s_start (subs ! j)"
proof -
  from assms have s: "s_start (subs ! i) \<le> s_start (subs ! j)"
    by (simp add: wellFormed_def sortedByStart_def sorted_wrt_iff_nth_less)
  from assms have n: "\<not> overlaps (subs ! i) (subs ! j)"
    by (simp add: wellFormed_def nonOverlapping_def sorted_wrt_iff_nth_less)
  from assms have v: "s_start (subs ! j) \<le> s_end (subs ! j)"
    by (simp add: wellFormed_valid)
  from s n v show ?thesis
    by (auto simp: overlaps_def)
qed

lemma wellFormed_unique:
  assumes wf: "wellFormed subs" and i: "i < length subs" and j: "j < length subs"
    and ci: "containsTime t (subs ! i)" and cj: "containsTime t (subs ! j)"
  shows "i = j"
proof (rule ccontr)
  assume "i \<noteq> j"
  then consider "i < j" | "j < i" by linarith
  then show False
  proof cases
    case 1
    from wellFormed_ordered [OF wf 1 j] ci cj show False
      by (simp add: containsTime_def)
  next
    case 2
    from wellFormed_ordered [OF wf 2 i] ci cj show False
      by (simp add: containsTime_def)
  qed
qed

lemma js_index_Some: "js_index xs i = Some x \<longleftrightarrow> 0 \<le> i \<and> i < int (length xs) \<and> x = xs ! nat i"
  by (auto simp: js_index_def)

lemma js_index_nat: "i < length xs \<Longrightarrow> js_index xs (int i) = Some (xs ! i)"
  by (simp add: js_index_def)

lemma binarySearchLoop_sound:
  "binarySearchLoop subs t l r = Inr (Some (s, k)) \<Longrightarrow>
     l \<le> k \<and> k \<le> r \<and> js_index subs k = Some s \<and> containsTime t s"
proof (induction subs t l r rule: binarySearchLoop.induct)
  case (1 subs time left right)
  note unf = binarySearchLoop.simps [of subs time left right]
  show ?case
  proof (cases "left \<le> right")
    case False
    with "1.prems" unf show ?thesis by simp
  next
    case True
    define mid where "mid = (left + right) div 2"
    have m: "left \<le> mid" "mid \<le> right" using True by (auto simp: mid_def Let_def)
    show ?thesis
    proof (cases "js_index subs mid")
      case None
      with True "1.prems" unf show ?thesis by (simp add: mid_def Let_def)
    next
      case (Some sub)
      show ?thesis
      proof (cases "containsTime time sub")
        case c: True
        with True Some "1.prems" unf show ?thesis using m by (auto simp: mid_def Let_def)
      next
        case c: False
        show ?thesis
        proof (cases "time < s_start sub")
          case lt: True
          from "1.prems" True Some c lt unf
          have "binarySearchLoop subs time left (mid - 1) = Inr (Some (s, k))"
            by (simp add: mid_def Let_def)
          from "1.IH"(1) [OF True mid_def Some c lt this] m
          show ?thesis by simp
        next
          case lt: False
          from "1.prems" True Some c lt unf
          have "binarySearchLoop subs time (mid + 1) right = Inr (Some (s, k))"
            by (simp add: mid_def Let_def)
          from "1.IH"(2) [OF True mid_def Some c lt this] m
          show ?thesis by simp
        qed
      qed
    qed
  qed
qed

lemma binarySearchLoop_no_error:
  "0 \<le> l \<Longrightarrow> r < int (length subs) \<Longrightarrow> binarySearchLoop subs t l r \<noteq> Inl e"
proof (induction subs t l r rule: binarySearchLoop.induct)
  case (1 subs time left right)
  note unf = binarySearchLoop.simps [of subs time left right]
  show ?case
  proof (cases "left \<le> right")
    case False
    with unf show ?thesis by simp
  next
    case True
    define mid where "mid = (left + right) div 2"
    have m: "left \<le> mid" "mid \<le> right" using True by (auto simp: mid_def Let_def)
    with "1.prems" have idx: "js_index subs mid = Some (subs ! nat mid)"
      by (simp add: js_index_def)
    show ?thesis
    proof (cases "containsTime time (subs ! nat mid)")
      case c: True
      with True idx unf show ?thesis by (simp add: mid_def Let_def)
    next
      case c: False
      show ?thesis
      proof (cases "time < s_start (subs ! nat mid)")
        case lt: True
        have "binarySearchLoop subs time left (mid - 1) \<noteq> Inl e"
          using "1.IH"(1) [OF True mid_def idx c lt] "1.prems" m by simp
        with True idx c lt unf show ?thesis by (simp add: mid_def Let_def)
      next
        case lt: False
        have "binarySearchLoop subs time (mid + 1) right \<noteq> Inl e"
          using "1.IH"(2) [OF True mid_def idx c lt] "1.prems" m by simp
        with True idx c lt unf show ?thesis by (simp add: mid_def Let_def)
      qed
    qed
  qed
qed

lemma binarySearchLoop_complete:
  "wellFormed subs \<Longrightarrow> 0 \<le> l \<Longrightarrow> r < int (length subs) \<Longrightarrow> l \<le> int i \<Longrightarrow> int i \<le> r \<Longrightarrow>
     containsTime t (subs ! i) \<Longrightarrow> binarySearchLoop subs t l r = Inr (Some (subs ! i, int i))"
proof (induction subs t l r rule: binarySearchLoop.induct)
  case (1 subs time left right)
  note unf = binarySearchLoop.simps [of subs time left right]
  note wf = "1.prems"(1)
  have True: "left \<le> right" using "1.prems" by simp
  have i: "i < length subs" using "1.prems" by simp
  define mid where "mid = (left + right) div 2"
  have m: "left \<le> mid" "mid \<le> right" using True by (auto simp: mid_def Let_def)
  with "1.prems" have mr: "0 \<le> mid" "nat mid < length subs" by simp_all
  then have idx: "js_index subs mid = Some (subs ! nat mid)"
    by (simp add: js_index_def)
  have below: "s_end (subs ! nat mid) < s_start (subs ! i)" if "mid < int i"
  proof -
    from that mr have "nat mid < i" by linarith
    from wellFormed_ordered [OF wf this i] show ?thesis .
  qed
  have above: "s_end (subs ! i) < s_start (subs ! nat mid)" if "int i < mid"
  proof -
    from that mr have "i < nat mid" by linarith
    from wellFormed_ordered [OF wf this mr(2)] show ?thesis .
  qed
  have vm: "s_start (subs ! nat mid) \<le> s_end (subs ! nat mid)"
    using wellFormed_valid [OF wf mr(2)] .
  note ct = "1.prems"(6) [unfolded containsTime_def]
  show ?case
  proof (cases "containsTime time (subs ! nat mid)")
    case c: True
    have "nat mid = i"
      using wellFormed_unique [OF wf mr(2) i c "1.prems"(6)] .
    with True idx c unf mr show ?thesis by (simp add: mid_def Let_def)
  next
    case c: False
    show ?thesis
    proof (cases "time < s_start (subs ! nat mid)")
      case lt: True
      have "int i < mid"
      proof (rule ccontr)
        assume "\<not> int i < mid"
        then consider "int i = mid" | "mid < int i" by linarith
        then show False
        proof cases
          case 1
          then have "nat mid = i" by simp
          with c "1.prems"(6) show False by simp
        next
          case 2
          from below [OF 2] vm lt ct show False by simp
        qed
      qed
      then have "binarySearchLoop subs time left (mid - 1) = Inr (Some (subs ! i, int i))"
        using "1.IH"(1) [OF True mid_def idx c lt wf] "1.prems" m by simp
      with True idx c lt unf show ?thesis by (simp add: mid_def Let_def)
    next
      case lt: False
      have "mid < int i"
      proof (rule ccontr)
        assume "\<not> mid < int i"
        then consider "int i = mid" | "int i < mid" by linarith
        then show False
        proof cases
          case 1
          then have "nat mid = i" by simp
          with c "1.prems"(6) show False by simp
        next
          case 2
          from above [OF 2] lt ct show False by simp
        qed
      qed
      then have "binarySearchLoop subs time (mid + 1) right = Inr (Some (subs ! i, int i))"
        using "1.IH"(2) [OF True mid_def idx c lt wf] "1.prems" m by simp
      with True idx c lt unf show ?thesis by (simp add: mid_def Let_def)
    qed
  qed
qed


lemma lookupBinary_outcome: "lookupOutcome t this (lookupBinary t this)"
proof (cases "binarySearchSubtitle this t")
  case (Inl e)
  then show ?thesis
    using binarySearchLoop_no_error [of 0 "int (length (subtitles this)) - 1" "subtitles this" t e]
    by (simp add: binarySearchSubtitle_def)
next
  case (Inr r)
  show ?thesis
  proof (cases r)
    case None
    with Inr show ?thesis by (simp add: lookupBinary_def lookupOutcome_def)
  next
    case (Some p)
    obtain s k where p: "p = (s, k)" by (cases p)
    from Inr Some p have "binarySearchLoop (subtitles this) t 0
        (int (length (subtitles this)) - 1) = Inr (Some (s, k))"
      by (simp add: binarySearchSubtitle_def)
    from binarySearchLoop_sound [OF this]
    have "0 \<le> k" "k < int (length (subtitles this))" "s = subtitles this ! nat k"
      "containsTime t s"
      by (auto simp: js_index_Some)
    with Inr Some p show ?thesis
      by (auto simp: lookupBinary_def lookupOutcome_def)
  qed
qed

lemma lookupOutcome_hit:
  "0 \<le> k \<Longrightarrow> k < int (length (subtitles this)) \<Longrightarrow>
   containsTime t (subtitles this ! nat k) \<Longrightarrow>
   lookupOutcome t this (Inr (Some (subtitles this ! nat k)), this\<lparr>currentIndex := k\<rparr>)"
  unfolding lookupOutcome_def by blast

lemma lookupPrev_outcome:
  assumes ok: "cursorOk this"
  shows "lookupOutcome t this (lookupPrev t this)"
proof (cases "currentIndex this - 1 \<ge> 0")
  case False
  then show ?thesis using lookupBinary_outcome [of t this] by (simp add: lookupPrev_def)
next
  case True
  with ok have r: "currentIndex this - 1 < int (length (subtitles this))"
    by (simp add: cursorOk_def)
  show ?thesis
  proof (cases "containsTime t (subtitles this ! nat (currentIndex this - 1))")
    case False
    with True r show ?thesis using lookupBinary_outcome [of t this]
      by (simp add: lookupPrev_def js_index_def)
  next
    case c: True
    from lookupOutcome_hit [OF True r c] True r c show ?thesis
      by (simp add: lookupPrev_def js_index_def)
  qed
qed

lemma lookupNext_outcome:
  assumes ok: "cursorOk this"
  shows "lookupOutcome t this (lookupNext t this)"
proof (cases "currentIndex this + 1 < int (length (subtitles this))")
  case False
  then show ?thesis using lookupPrev_outcome [OF ok, of t] by (simp add: lookupNext_def)
next
  case True
  from ok have r: "0 \<le> currentIndex this + 1"
    by (simp add: cursorOk_def)
  show ?thesis
  proof (cases "containsTime t (subtitles this ! nat (currentIndex this + 1))")
    case False
    with True r show ?thesis using lookupPrev_outcome [OF ok, of t]
      by (simp add: lookupNext_def js_index_def)
  next
    case c: True
    from lookupOutcome_hit [OF r True c] True r c show ?thesis
      by (simp add: lookupNext_def js_index_def)
  qed
qed

lemma lookupCurrent_outcome:
  assumes ok: "cursorOk this"
  shows "lookupOutcome t this (lookupCurrent t this)"
proof (cases "currentIndex this \<ge> 0 \<and> currentIndex this < int (length (subtitles this))")
  case False
  then show ?thesis using lookupNext_outcome [OF ok, of t] by (auto simp: lookupCurrent_def)
next
  case True
  show ?thesis
  proof (cases "containsTime t (subtitles this ! nat (currentIndex this))")
    case False
    with True show ?thesis using lookupNext_outcome [OF ok, of t]
      by (simp add: lookupCurrent_def js_index_def)
  next
    case c: True
    from True have "0 \<le> currentIndex this" "currentIndex this < int (length (subtitles this))"
      by simp_all
    from lookupOutcome_hit [OF this c] True c show ?thesis
      by (simp add: lookupCurrent_def js_index_def)
  qed
qed

lemma getSubtitleAtTime_outcome:
  "cursorOk this \<Longrightarrow>
     lookupOutcome (p + offset this) this (getSubtitleAtTime p this)"
  using lookupCurrent_outcome [of this "p + offset this"]
  by (simp add: getSubtitleAtTime_def lookupOutcome_def)

lemma lookupOutcome_found:
  assumes wf: "wellFormed (subtitles this)" and i: "i < length (subtitles this)"
    and c: "containsTime t (subtitles this ! i)"
    and o: "lookupOutcome t this res" and n: "fst res \<noteq> Inr None"
  shows "res = (Inr (Some (subtitles this ! i)), this\<lparr>currentIndex := int i\<rparr>)"
proof -
  from o n obtain k where k: "0 \<le> k" "k < int (length (subtitles this))"
      "containsTime t (subtitles this ! nat k)"
      "res = (Inr (Some (subtitles this ! nat k)), this\<lparr>currentIndex := k\<rparr>)"
    by (auto simp: lookupOutcome_def)
  from k(1,2) have "nat k < length (subtitles this)" by simp
  from wellFormed_unique [OF wf this i k(3) c] k(1) have "k = int i" by simp
  with k(4) show ?thesis by simp
qed

lemma lookupBinary_found:
  assumes wf: "wellFormed (subtitles this)" and i: "i < length (subtitles this)"
    and c: "containsTime t (subtitles this ! i)"
  shows "lookupBinary t this = (Inr (Some (subtitles this ! i)), this\<lparr>currentIndex := int i\<rparr>)"
proof -
  have "binarySearchLoop (subtitles this) t 0 (int (length (subtitles this)) - 1)
          = Inr (Some (subtitles this ! i, int i))"
    using binarySearchLoop_complete [OF wf _ _ _ _ c, of 0 "int (length (subtitles this)) - 1"] i
    by simp
  then show ?thesis by (simp add: lookupBinary_def binarySearchSubtitle_def)
qed

lemma lookupPrev_found:
  assumes wf: "wellFormed (subtitles this)" and i: "i < length (subtitles this)"
    and c: "containsTime t (subtitles this ! i)" and ok: "cursorOk this"
  shows "lookupPrev t this = (Inr (Some (subtitles this ! i)), this\<lparr>currentIndex := int i\<rparr>)"
proof (rule lookupOutcome_found [OF wf i c lookupPrev_outcome [OF ok]])
  show "fst (lookupPrev t this) \<noteq> Inr None"
    using lookupBinary_found [OF wf i c] ok
    by (auto simp: lookupPrev_def js_index_def cursorOk_def)
qed

lemma lookupNext_found:
  assumes wf: "wellFormed (subtitles this)" and i: "i < length (subtitles this)"
    and c: "containsTime t (subtitles this ! i)" and ok: "cursorOk this"
  shows "lookupNext t this = (Inr (Some (subtitles this ! i)), this\<lparr>currentIndex := int i\<rparr>)"
proof (rule lookupOutcome_found [OF wf i c lookupNext_outcome [OF ok]])
  show "fst (lookupNext t this) \<noteq> Inr None"
    using lookupPrev_found [OF wf i c ok] ok
    by (auto simp: lookupNext_def js_index_def cursorOk_def)
qed

lemma lookupCurrent_found:
  assumes wf: "wellFormed (subtitles this)" and i: "i < length (subtitles this)"
    and c: "containsTime t (subtitles this ! i)" and ok: "cursorOk this"
  shows "lookupCurrent t this = (Inr (Some (subtitles this ! i)), this\<lparr>currentIndex := int i\<rparr>)"
proof (rule lookupOutcome_found [OF wf i c lookupCurrent_outcome [OF ok]])
  show "fst (lookupCurrent t this) \<noteq> Inr None"
    using lookupNext_found [OF wf i c ok] ok
    by (auto simp: lookupCurrent_def js_index_def cursorOk_def)
qed

lemma getSubtitleAtTime_found:
  assumes wf: "wellFormed (subtitles this)" and i: "i < length (subtitles this)"
    and c: "containsTime (p + offset this) (subtitles this ! i)" and ok: "cursorOk this"
    and en: "enabled this"
  shows "getSubtitleAtTime p this =
    (Inr (Some (subtitles this ! i)), this\<lparr>currentIndex := int i\<rparr>)"
  using lookupCurrent_found [OF wf i c ok] en i
  by (auto simp: getSubtitleAtTime_def)

lemma getSubtitleAtTime_none:
  assumes ok: "cursorOk this"
    and no: "\<forall>i < length (subtitles this). \<not> containsTime (p + offset this) (subtitles this ! i)"
  shows "getSubtitleAtTime p this = (Inr None, this)"
proof -
  from getSubtitleAtTime_outcome [OF ok, of p]
  show ?thesis
    unfolding lookupOutcome_def
  proof
    assume "getSubtitleAtTime p this = (Inr None, this)"
    then show ?thesis .
  next
    assume "\<exists>k. 0 \<le> k \<and> k < int (length (subtitles this)) \<and>
          containsTime (p + offset this) (subtitles this ! nat k) \<and>
          getSubtitleAtTime p this =
            (Inr (Some (subtitles this ! nat k)), this\<lparr>currentIndex := k\<rparr>)"
    then obtain k where k: "0 \<le> k" "k < int (length (subtitles this))"
      "containsTime (p + offset this) (subtitles this ! nat k)" by blast
    from k(1,2) have "nat k < length (subtitles this)" by simp
    with no k(3) show ?thesis by blast
  qed
qed

lemma wellFormed_gap:
  assumes wf: "wellFormed subs" and i: "Suc i < length subs"
    and lo: "s_end (subs ! i) < x" and hi: "x < s_start (subs ! Suc i)"
    and j: "j < length subs"
  shows "\<not> containsTime x (subs ! j)"
proof (cases "j \<le> i")
  case True
  have "s_end (subs ! j) \<le> s_end (subs ! i)"
  proof (cases "j = i")
    case True
    then show ?thesis by simp
  next
    case False
    with True have ji: "j < i" by simp
    from i have "i < length subs" by simp
    from wellFormed_ordered [OF wf ji this] wellFormed_valid [OF wf this]
    show ?thesis by simp
  qed
  with lo show ?thesis by (simp add: containsTime_def)
next
  case False
  have "s_start (subs ! Suc i) \<le> s_start (subs ! j)"
  proof (cases "j = Suc i")
    case True
    then show ?thesis by simp
  next
    case ne: False
    with False have ij: "Suc i < j" by simp
    from wellFormed_ordered [OF wf ij j] wellFormed_valid [OF wf i]
    show ?thesis by simp
  qed
  with hi show ?thesis by (simp add: containsTime_def)
qed

lemma cursorOk_setOffset: "cursorOk (setOffset off this)"
  by (simp add: cursorOk_def setOffset_def)

lemma demo_wellFormed: "wellFormed (subtitles demoEngine)"
  by (simp add: demoEngine_def demoSubs_def wellFormed_def validIntervals_def
      sortedByStart_def nonOverlapping_def overlaps_def)

lemma demo_cursorOk: "cursorOk demoEngine"
  by (simp add: demoEngine_def demoSubs_def cursorOk_def)

lemma isArray_iff: "isArray x \<longleftrightarrow> (\<exists>subs. x = JsArray subs)"
  by (cases x) simp_all

subsection \<open>Lookup\<close>



text \<open>Claim C3 (gap correctness).  In a well-formed sequence, when \<open>t + offset\<close> lies
  strictly between the end of entry \<open>i\<close> and the start of entry \<open>i + 1\<close>, the
  lookup returns none and the engine, in particular the cursor, is what it was before
  (it is not reset to \<open>-1\<close>).  This holds for the enabled and for the disabled
  engine.\<close>

theorem gap_correctness:
  assumes "wellFormed (subtitles this)" and "cursorOk this"
    and "Suc i < length (subtitles this)"
    and "s_end (subtitles this ! i) < t + offset this"
    and "t + offset this < s_start (subtitles this ! Suc i)"
  shows "getSubtitleAtTime t this = (Inr None, this)
       \<and> currentIndex (snd (getSubtitleAtTime t this)) = currentIndex this"
proof -
  have "\<forall>j < length (subtitles this). \<not> containsTime (t + offset this) (subtitles this ! j)"
    using wellFormed_gap [OF assms(1,3,4,5)] by blast
  from getSubtitleAtTime_none [OF assms(2) this] show ?thesis by simp
qed

theorem gap_correctness_witness:
  "wellFormed (subtitles demoEngine) \<and> enabled demoEngine \<and> cursorOk demoEngine
   \<and> Suc 0 < length (subtitles demoEngine)
   \<and> s_end (subtitles demoEngine ! 0) < 5 / 2 + offset demoEngine
   \<and> 5 / 2 + offset demoEngine < s_start (subtitles demoEngine ! Suc 0)
   \<and> getSubtitleAtTime (5 / 2) demoEngine = (Inr None, demoEngine)
   \<and> currentIndex (snd (getSubtitleAtTime (5 / 2) demoEngine)) = 2"
proof -
  have h: "Suc 0 < length (subtitles demoEngine)"
    "s_end (subtitles demoEngine ! 0) < 5 / 2 + offset demoEngine"
    "5 / 2 + offset demoEngine < s_start (subtitles demoEngine ! Suc 0)"
    by (simp_all add: demoEngine_def demoSubs_def)
  have e: "enabled demoEngine" "currentIndex demoEngine = 2"
    by (simp_all add: demoEngine_def)
  from gap_correctness [OF demo_wellFormed demo_cursorOk h] demo_wellFormed demo_cursorOk h e
  show ?thesis by simp
qed

subsection \<open>Loading, the cursor invariant, offset and enable flag\<close>

text \<open>Claim C5.  \<open>loadSubtitles x\<close> throws exactly when \<open>x\<close> is not an array;
  when it throws, the engine is unchanged; every array, whatever its entries, replaces
  the sequence and resets the cursor to \<open>-1\<close>.\<close>

theorem loadSubtitles_validation:
  "((\<exists>e. fst (loadSubtitles x this) = Inl e) \<longleftrightarrow> \<not> isArray x)
   \<and> (\<not> isArray x \<longrightarrow> snd (loadSubtitles x this) = this)
   \<and> (\<forall>subs. loadSubtitles (JsArray subs) this
         = (Inr (), this\<lparr>subtitles := subs, currentIndex := - 1\<rparr>))"
  by (cases x) (simp_all add: loadSubtitles_def)

theorem loadSubtitles_validation_witness:
  "\<not> isArray JsNull
   \<and> fst (loadSubtitles JsNull demoEngine) = Inl (Error ''Subtitles must be an array'')
   \<and> snd (loadSubtitles JsNull demoEngine) = demoEngine
   \<and> \<not> wellFormed unsortedSubs
   \<and> loadSubtitles (JsArray unsortedSubs) demoEngine
       = (Inr (), demoEngine\<lparr>subtitles := unsortedSubs, currentIndex := - 1\<rparr>)"
proof -
  have n: "\<not> isArray JsNull" by simp
  have u: "\<not> wellFormed unsortedSubs"
    by (simp add: unsortedSubs_def wellFormed_def sortedByStart_def)
  have f: "fst (loadSubtitles JsNull demoEngine) = Inl (Error ''Subtitles must be an array'')"
    by (simp add: loadSubtitles_def)
  from loadSubtitles_validation [of JsNull demoEngine] n u f show ?thesis by simp
qed

text \<open>Claim C6.  The cursor stays in \<open>[-1, N-1]\<close>: each operation of the engine
  preserves \<open>cursorOk\<close>, and the constructor establishes it.\<close>

theorem cursor_invariant:
  assumes "cursorOk this"
  shows "cursorOk (snd (loadSubtitles x this))
       \<and> cursorOk (clearSubtitles this)
       \<and> cursorOk (setOffset off this)
       \<and> cursorOk (setEnabled flag this)
       \<and> cursorOk (snd (getSubtitleAtTime t this))
       \<and> cursorOk (snd (getSubtitlesInRange a b this))
       \<and> cursorOk (snd (getStats this))
       \<and> cursorOk (reset this)
       \<and> cursorOk constructor"
proof -
  have 1: "cursorOk (snd (loadSubtitles x this))"
    using assms by (cases x) (simp_all add: loadSubtitles_def cursorOk_def)
  have 2: "cursorOk (clearSubtitles this)" by (simp add: clearSubtitles_def cursorOk_def)
  have 3: "cursorOk (setOffset off this)" by (rule cursorOk_setOffset)
  have 4: "cursorOk (setEnabled flag this)"
    using assms by (simp add: setEnabled_def cursorOk_def)
  have 5: "cursorOk (snd (getSubtitleAtTime t this))"
    using getSubtitleAtTime_outcome [OF assms, of t] assms
    by (auto simp: lookupOutcome_def cursorOk_def)
  have 6: "cursorOk (snd (getSubtitlesInRange a b this))"
    using assms by (simp add: getSubtitlesInRange_def)
  have 7: "cursorOk (snd (getStats this))"
    using assms by (simp add: getStats_def Let_def)
  have 8: "cursorOk (reset this)" by (simp add: reset_def cursorOk_def)
  have 9: "cursorOk constructor" by (simp add: constructor_def cursorOk_def)
  from 1 2 3 4 5 6 7 8 9 show ?thesis by blast
qed

theorem cursor_invariant_witness:
  "cursorOk demoEngine
   \<and> currentIndex (snd (getSubtitleAtTime 1 demoEngine)) = 0
   \<and> cursorOk (snd (getSubtitleAtTime 1 demoEngine))
   \<and> cursorOk (snd (loadSubtitles (JsArray []) demoEngine))"
proof -
  have "binarySearchSubtitle demoEngine 1
      = Inr (Some (\<lparr>s_start = 0, s_end = 2, s_text = ''a''\<rparr>, 0))"
    by code_simp
  then have "currentIndex (snd (getSubtitleAtTime 1 demoEngine)) = 0"
    by code_simp
  with cursor_invariant [OF demo_cursorOk, of "JsArray []" 0 True 1 0 0] demo_cursorOk
  show ?thesis by simp
qed

text \<open>Claim C7.  \<open>setOffset off\<close> stores the offset and resets the cursor, and changes
  no other field.  The next lookup at \<open>t\<close> is decided by the new offset: on a
  well-formed sequence of an enabled engine it returns the entry that contains
  \<open>t + off\<close>; it returns none when no entry contains \<open>t + off\<close>; and whatever it
  returns is an entry of the sequence that contains \<open>t + off\<close>.\<close>

theorem setOffset_invalidates:
  "offset (setOffset off this) = off
   \<and> currentIndex (setOffset off this) = - 1
   \<and> subtitles (setOffset off this) = subtitles this
   \<and> enabled (setOffset off this) = enabled this
   \<and> lastUpdateTime (setOffset off this) = lastUpdateTime this
   \<and> (wellFormed (subtitles this) \<and> enabled this \<longrightarrow>
        (\<forall>i < length (subtitles this). containsTime (t + off) (subtitles this ! i) \<longrightarrow>
           fst (getSubtitleAtTime t (setOffset off this)) = Inr (Some (subtitles this ! i))))
   \<and> ((\<forall>i < length (subtitles this). \<not> containsTime (t + off) (subtitles this ! i)) \<longrightarrow>
        fst (getSubtitleAtTime t (setOffset off this)) = Inr None)
   \<and> (\<forall>sub. fst (getSubtitleAtTime t (setOffset off this)) = Inr (Some sub) \<longrightarrow>
        sub \<in> set (subtitles this) \<and> containsTime (t + off) sub)"
proof -
  let ?that = "setOffset off this"
  have s: "subtitles ?that = subtitles this" "enabled ?that = enabled this"
    "offset ?that = off" "currentIndex ?that = - 1" "lastUpdateTime ?that = lastUpdateTime this"
    by (simp_all add: setOffset_def)
  have found: "fst (getSubtitleAtTime t ?that) = Inr (Some (subtitles this ! i))"
    if "wellFormed (subtitles this)" "enabled this" "i < length (subtitles this)"
      "containsTime (t + off) (subtitles this ! i)" for i
  proof -
    from that s have "wellFormed (subtitles ?that)" "i < length (subtitles ?that)"
      "containsTime (t + offset ?that) (subtitles ?that ! i)" "enabled ?that"
      by simp_all
    from getSubtitleAtTime_found [OF this(1,2,3) cursorOk_setOffset this(4)] s(1)
    show ?thesis by simp
  qed
  have none: "fst (getSubtitleAtTime t ?that) = Inr None"
    if "\<forall>i < length (subtitles this). \<not> containsTime (t + off) (subtitles this ! i)"
  proof -
    from that s
    have "\<forall>i < length (subtitles ?that). \<not> containsTime (t + offset ?that) (subtitles ?that ! i)"
      by simp
    from getSubtitleAtTime_none [OF cursorOk_setOffset this] show ?thesis by simp
  qed
  have sound: "sub \<in> set (subtitles this) \<and> containsTime (t + off) sub"
    if r: "fst (getSubtitleAtTime t ?that) = Inr (Some sub)" for sub
  proof -
    have "lookupOutcome (t + off) ?that (getSubtitleAtTime t ?that)"
      using getSubtitleAtTime_outcome [OF cursorOk_setOffset, of t off this] s(3) by simp
    with r obtain k where "0 \<le> k" "k < int (length (subtitles ?that))"
      "containsTime (t + off) (subtitles ?that ! nat k)" "sub = subtitles ?that ! nat k"
      unfolding lookupOutcome_def by auto
    with s(1) show ?thesis by simp
  qed
  show ?thesis
    using found none sound by (intro conjI s allI impI) auto
qed

theorem setOffset_invalidates_witness:
  "snd (getSubtitleAtTime 4 demoEngine) = demoEngine\<lparr>currentIndex := 1\<rparr>
   \<and> wellFormed (subtitles (demoEngine\<lparr>currentIndex := 1\<rparr>))
   \<and> enabled (demoEngine\<lparr>currentIndex := 1\<rparr>)
   \<and> 2 < length (subtitles (demoEngine\<lparr>currentIndex := 1\<rparr>))
   \<and> containsTime (4 + 3) (subtitles (demoEngine\<lparr>currentIndex := 1\<rparr>) ! 2)
   \<and> fst (getSubtitleAtTime 4 (demoEngine\<lparr>currentIndex := 1\<rparr>))
       = Inr (Some \<lparr>s_start = 3, s_end = 5, s_text = ''b''\<rparr>)
   \<and> fst (getSubtitleAtTime 4 (setOffset 3 (demoEngine\<lparr>currentIndex := 1\<rparr>)))
       = Inr (Some \<lparr>s_start = 6, s_end = 8, s_text = ''c''\<rparr>)
   \<and> list_all (\<lambda>sub. \<not> containsTime (4 + 3 / 2) sub)
         (subtitles (demoEngine\<lparr>currentIndex := 1\<rparr>))
   \<and> fst (getSubtitleAtTime 4 (setOffset (3 / 2) (demoEngine\<lparr>currentIndex := 1\<rparr>)))
       = Inr None"
proof -
  define that where "that = demoEngine\<lparr>currentIndex := 1\<rparr>"
  have g: "snd (getSubtitleAtTime 4 demoEngine) = demoEngine\<lparr>currentIndex := 1\<rparr>"
    by code_simp
  have g2: "fst (getSubtitleAtTime 4 (demoEngine\<lparr>currentIndex := 1\<rparr>))
      = Inr (Some \<lparr>s_start = 3, s_end = 5, s_text = ''b''\<rparr>)"
    by code_simp
  have t: "subtitles that = demoSubs" "enabled that"
    by (simp_all add: that_def demoEngine_def)
  have wf: "wellFormed (subtitles that)" using demo_wellFormed by (simp add: that_def)
  have l: "2 < length (subtitles that)"
    "subtitles that ! 2 = \<lparr>s_start = 6, s_end = 8, s_text = ''c''\<rparr>"
    by (simp_all add: t demoSubs_def)
  have c: "containsTime (4 + 3) (subtitles that ! 2)"
    by (simp add: l containsTime_def)
  have la: "list_all (\<lambda>sub. \<not> containsTime (4 + 3 / 2) sub) (subtitles that)"
    by (simp add: t demoSubs_def containsTime_def)
  then have n: "\<forall>i < length (subtitles that). \<not> containsTime (4 + 3 / 2) (subtitles that ! i)"
    by (simp only: list_all_length)
  have "fst (getSubtitleAtTime 4 (setOffset 3 that)) = Inr (Some (subtitles that ! 2))"
    using setOffset_invalidates [of 3 that 4] wf t(2) l(1) c by blast
  then have a: "fst (getSubtitleAtTime 4 (setOffset 3 that))
         = Inr (Some \<lparr>s_start = 6, s_end = 8, s_text = ''c''\<rparr>)" by (simp only: l)
  have b: "fst (getSubtitleAtTime 4 (setOffset (3 / 2) that)) = Inr None"
    using setOffset_invalidates [of "3 / 2" that 4] n by blast
  show ?thesis
    by (intro conjI g g2 wf [unfolded that_def] t(2) [unfolded that_def] l(1) [unfolded that_def]
        c [unfolded that_def] a [unfolded that_def] la [unfolded that_def] b [unfolded that_def])
qed

text \<open>Claim C8.  \<open>setEnabled flag\<close> writes the flag and nothing else, the cursor
  included.  After \<open>setEnabled false\<close> every lookup returns none and leaves the engine
  as it is; so does every lookup on a disabled engine or on an empty sequence.\<close>

theorem setEnabled_flag_only:
  "enabled (setEnabled flag this) = flag
   \<and> currentIndex (setEnabled flag this) = currentIndex this
   \<and> subtitles (setEnabled flag this) = subtitles this
   \<and> offset (setEnabled flag this) = offset this
   \<and> lastUpdateTime (setEnabled flag this) = lastUpdateTime this
   \<and> getSubtitleAtTime t (setEnabled False this) = (Inr None, setEnabled False this)
   \<and> (\<not> enabled this \<or> subtitles this = [] \<longrightarrow> getSubtitleAtTime t this = (Inr None, this))"
  by (simp add: setEnabled_def getSubtitleAtTime_def)

theorem setEnabled_flag_only_witness:
  "subtitles demoEngine \<noteq> [] \<and> containsTime (7 + offset demoEngine) (subtitles demoEngine ! 2)
   \<and> currentIndex demoEngine = 2
   \<and> getSubtitleAtTime 7 (setEnabled False demoEngine)
       = (Inr None, demoEngine\<lparr>enabled := False\<rparr>)
   \<and> getSubtitleAtTime 7 (setEnabled True (setEnabled False demoEngine))
       = (Inr (Some \<lparr>s_start = 6, s_end = 8, s_text = ''c''\<rparr>), demoEngine)
   \<and> \<not> enabled (setEnabled False demoEngine)
   \<and> getSubtitleAtTime 7 (clearSubtitles demoEngine) = (Inr None, clearSubtitles demoEngine)"
proof -
  have a: "subtitles demoEngine \<noteq> []" "currentIndex demoEngine = 2"
    "containsTime (7 + offset demoEngine) (subtitles demoEngine ! 2)"
    by (simp_all add: demoEngine_def demoSubs_def containsTime_def)
  have b: "getSubtitleAtTime 7 (setEnabled True (setEnabled False demoEngine))
       = (Inr (Some \<lparr>s_start = 6, s_end = 8, s_text = ''c''\<rparr>), demoEngine)"
    by (simp add: setEnabled_def getSubtitleAtTime_def lookupCurrent_def js_index_def
        containsTime_def demoEngine_def demoSubs_def)
  have c: "subtitles (clearSubtitles demoEngine) = []" "\<not> enabled (setEnabled False demoEngine)"
    by (simp_all add: clearSubtitles_def setEnabled_def)
  from setEnabled_flag_only [of False demoEngine 7]
  have "getSubtitleAtTime 7 (setEnabled False demoEngine)
      = (Inr None, setEnabled False demoEngine)" by simp
  then have d: "getSubtitleAtTime 7 (setEnabled False demoEngine)
      = (Inr None, demoEngine\<lparr>enabled := False\<rparr>)" by (simp add: setEnabled_def)
  from setEnabled_flag_only [of False "clearSubtitles demoEngine" 7] c
  have e: "getSubtitleAtTime 7 (clearSubtitles demoEngine) = (Inr None, clearSubtitles demoEngine)"
    by simp
  show ?thesis by (intro conjI a b c d e)
qed

section \<open>Properties of the SRT codec\<close>

lemma isWhiteSpace_newline [simp]: "isWhiteSpace CHR 0x0A"
  by (simp add: isWhiteSpace_def)


lemma isDigit_not_newline: "isDigit c \<Longrightarrow> c \<noteq> CHR 0x0A"
  by (auto simp: isDigit_def)

subsection \<open>trim\<close>


lemma trimEnd_solid: "endsSolid s \<Longrightarrow> trimEnd s = s"
proof -
  assume "endsSolid s"
  then have "rev s \<noteq> []" "\<not> isWhiteSpace (hd (rev s))"
    by (simp_all add: endsSolid_def hd_rev)
  then have "dropWhile isWhiteSpace (rev s) = rev s"
    by (cases "rev s") simp_all
  then show ?thesis by (simp add: trimEnd_def)
qed


lemma trimEnd_append_solid: "endsSolid b \<Longrightarrow> trimEnd (a @ b) = a @ b"
  by (rule trimEnd_solid) (simp add: endsSolid_def)




subsection \<open>Lines\<close>






subsection \<open>Blank-line matching\<close>










subsection \<open>Blocks\<close>









subsection \<open>Numbers and timestamps\<close>

lemma of_char_digitChar: "d < 10 \<Longrightarrow> (of_char (digitChar d) :: nat) = 48 + d"
  by (simp add: digitChar_def)

lemma isDigit_digitChar: "d < 10 \<Longrightarrow> isDigit (digitChar d)"
  by (simp add: isDigit_def of_char_digitChar)













lemma digitChar_not_newline: "d < 10 \<Longrightarrow> digitChar d \<noteq> CHR 0x0A"
  using isDigit_not_newline [OF isDigit_digitChar] .











subsection \<open>Exported blocks\<close>

















subsection \<open>Parsing\<close>










text \<open>Claim C10.  The scenario of the specification: the two-block input parses to the
  entries \<open>{1, 4, Hello}\<close> and \<open>{5.5, 8.25, World\<newline>Line2}\<close>, the timestamp fields
  being combined as \<open>h * 3600 + m * 60 + s + ms / 1000\<close>.\<close>

theorem parse_scenario:
  "parseSRT ''1\<newline>00:00:01,000 --> 00:00:04,000\<newline>Hello\<newline>\<newline>2\<newline>00:00:05,500 --> 00:00:08,250\<newline>World\<newline>Line2''
     = [\<lparr>s_start = 1, s_end = 4, s_text = ''Hello''\<rparr>,
        \<lparr>s_start = 11 / 2, s_end = 33 / 4, s_text = ''World\<newline>Line2''\<rparr>]
   \<and> parseTimestamp ''00'' ''00'' ''05'' ''500'' = 0 * 3600 + 0 * 60 + 5 + 500 / 1000
   \<and> parseTimestamp ''00'' ''00'' ''08'' ''250'' = 0 * 3600 + 0 * 60 + 8 + 250 / 1000"
  by code_simp


subsection \<open>Round trip\<close>




end
